theory Spec2Isabelle
  imports Complex_Main
begin

section \<open>JavaScript values\<close>

text \<open>
  The camera module is duck-typed: \<^verbatim>\<open>ensurePictureOptions\<close> inspects its argument with
  \<^verbatim>\<open>!options\<close> and \<^verbatim>\<open>typeof\<close>, so the argument is modelled as a dynamically typed value
  and an object as a finite map from property names to values. Callbacks are opaque:
  a function value is identified by a number and an invocation is recorded, not run;
  whether a call returns or throws is given by a parameter \<open>call\<close> of the code that makes it.
  Numbers that are counters stay below \<open>2^53\<close>, where the arithmetic of the runtime is
  exact, and are modelled by unbounded naturals.
\<close>

datatype js_val =
    JUndefined
  | JNull
  | JBool bool
  | JNumber real
  | JNaN
  | JString string
  | JFunction nat
  | JObject "string \<Rightarrow> js_val option"

type_synonym js_obj = "string \<Rightarrow> js_val option"

datatype js_type = TUndefined | TObject | TBoolean | TNumber | TString | TFunction

fun typeof :: "js_val \<Rightarrow> js_type" where
  "typeof JUndefined = TUndefined"
| "typeof JNull = TObject"
| "typeof (JBool b) = TBoolean"
| "typeof (JNumber x) = TNumber"
| "typeof JNaN = TNumber"
| "typeof (JString s) = TString"
| "typeof (JFunction f) = TFunction"
| "typeof (JObject m) = TObject"

text \<open>The conversion to a boolean that \<^verbatim>\<open>!v\<close>, \<^verbatim>\<open>v || w\<close> and \<^verbatim>\<open>if (v)\<close> apply.\<close>

fun truthy :: "js_val \<Rightarrow> bool" where
  "truthy JUndefined = False"
| "truthy JNull = False"
| "truthy (JBool b) = b"
| "truthy (JNumber x) = (x \<noteq> 0)"
| "truthy JNaN = False"
| "truthy (JString s) = (s \<noteq> [])"
| "truthy (JFunction f) = True"
| "truthy (JObject m) = True"

text \<open>The properties of a value that is used as an object; a primitive has none of its own.\<close>

fun properties :: "js_val \<Rightarrow> js_obj" where
  "properties (JObject m) = m"
| "properties v = Map.empty"

text \<open>Reading a property: an absent property reads as \<^verbatim>\<open>undefined\<close>.\<close>

definition get_prop :: "('k \<Rightarrow> js_val option) \<Rightarrow> 'k \<Rightarrow> js_val" where
  "get_prop obj k = (case obj k of None \<Rightarrow> JUndefined | Some v \<Rightarrow> v)"

section \<open>Picture and recording options\<close>

text \<open>
  The module-level state of \<^verbatim>\<open>Camera.tsx\<close>: the registry \<^verbatim>\<open>_PICTURE_SAVED_CALLBACKS\<close>
  and the counter \<^verbatim>\<open>_GLOBAL_PICTURE_ID\<close>, which starts at 1.
\<close>

record bridge_state =
  PICTURE_SAVED_CALLBACKS :: "nat \<Rightarrow> js_val option"
  GLOBAL_PICTURE_ID :: nat

definition initial_bridge :: bridge_state where
  "initial_bridge = \<lparr>PICTURE_SAVED_CALLBACKS = Map.empty, GLOBAL_PICTURE_ID = 1\<rparr>"

text \<open>
  \<^verbatim>\<open>ensurePictureOptions\<close> writes into the object it was given and returns it; the model
  returns the updated module state and the properties of the returned object.
\<close>

definition ensurePictureOptions :: "bridge_state \<Rightarrow> js_val \<Rightarrow> bridge_state \<times> js_obj" where
  "ensurePictureOptions st options =
     (let pictureOptions =
            (if \<not> truthy options \<or> typeof options \<noteq> TObject then Map.empty else properties options);
          pictureOptions =
            (if \<not> truthy (get_prop pictureOptions ''quality'')
             then pictureOptions(''quality'' \<mapsto> JNumber 1) else pictureOptions)
      in if truthy (get_prop pictureOptions ''onPictureSaved'')
         then (let ident = GLOBAL_PICTURE_ID st
               in (st\<lparr>GLOBAL_PICTURE_ID := ident + 1,
                       PICTURE_SAVED_CALLBACKS :=
                         (PICTURE_SAVED_CALLBACKS st)(ident \<mapsto> get_prop pictureOptions ''onPictureSaved'')\<rparr>,
                   pictureOptions(''id'' \<mapsto> JNumber (real ident), ''fastMode'' \<mapsto> JBool True)))
         else (st, pictureOptions))"

definition ensureRecordingOptions :: "js_val \<Rightarrow> js_obj" where
  "ensureRecordingOptions options =
     (let recordingOptions = (if truthy options then options else JObject Map.empty)
      in if \<not> truthy recordingOptions \<or> typeof recordingOptions \<noteq> TObject
         then Map.empty else properties recordingOptions)"

text \<open>
  The errors of the module: a value that is called and is not a function, the error of an
  absent native method, the rejection of a native promise, and whatever a callback throws.
\<close>

datatype js_error =
  TypeError | UnavailabilityError string string | Rejected string | Thrown js_val

text \<open>
  What a call of a callback does: \<open>call f argument\<close> is \<open>None\<close> when the call returns and
  \<open>Some err\<close> when it throws \<open>err\<close>. The two behaviours below are the callback that returns
  and the callback that throws a given value.
\<close>

definition returns :: "'f \<Rightarrow> 'a \<Rightarrow> js_error option" where
  "returns f argument = None"

definition throws :: "js_val \<Rightarrow> 'f \<Rightarrow> 'a \<Rightarrow> js_error option" where
  "throws v f argument = Some (Thrown v)"

text \<open>
  \<^verbatim>\<open>_onPictureSaved\<close> handles the native event \<^verbatim>\<open>{ id, data }\<close>. The result is the new
  module state, the invocation made, if any (the function called and its argument), and
  the error the handler ends with, if any. The callback is called on line 70 and the entry
  is deleted on line 71, so a callback that throws leaves the handler before the
  \<^verbatim>\<open>delete\<close>: it has been invoked and is still registered. Calling a registered value that
  is not a function throws a \<^verbatim>\<open>TypeError\<close>, also before the \<^verbatim>\<open>delete\<close>.
\<close>

definition onPictureSaved ::
  "(nat \<Rightarrow> js_val \<Rightarrow> js_error option) \<Rightarrow> bridge_state \<Rightarrow> nat \<Rightarrow> js_val
     \<Rightarrow> bridge_state \<times> (nat \<times> js_val) option \<times> js_error option" where
  "onPictureSaved call st ident data =
     (let callback = get_prop (PICTURE_SAVED_CALLBACKS st) ident
      in if truthy callback
         then (case callback of
                 JFunction f \<Rightarrow>
                   (case call f data of
                      Some err \<Rightarrow> (st, Some (f, data), Some err)
                    | None \<Rightarrow>
                        (st\<lparr>PICTURE_SAVED_CALLBACKS := (PICTURE_SAVED_CALLBACKS st)(ident := None)\<rparr>,
                         Some (f, data), None))
               | _ \<Rightarrow> (st, None, Some TypeError))
         else (st, None, None))"

text \<open>
  The two instance methods that prepare their argument and hand it to the native view.
  \<^verbatim>\<open>this._cameraRef.current\<close> is the mounted view or null; its method is a parameter, with
  the outcome of the promise it returns. Without a view the optional call yields
  \<^verbatim>\<open>undefined\<close>.
\<close>

definition takePictureAsync ::
  "(js_obj \<Rightarrow> js_error + js_val) option \<Rightarrow> bridge_state \<Rightarrow> js_val
     \<Rightarrow> bridge_state \<times> (js_error + js_val)" where
  "takePictureAsync current st options =
     (let (st', pictureOptions) = ensurePictureOptions st options
      in (st', case current of None \<Rightarrow> Inr JUndefined
                             | Some takePicture \<Rightarrow> takePicture pictureOptions))"

definition recordAsync ::
  "(js_obj \<Rightarrow> js_error + js_val) option \<Rightarrow> js_val \<Rightarrow> js_error + js_val" where
  "recordAsync current options =
     (let recordingOptions = ensureRecordingOptions options
      in case current of None \<Rightarrow> Inr JUndefined
                       | Some record \<Rightarrow> record recordingOptions)"

text \<open>A sequence of calls of \<^verbatim>\<open>ensurePictureOptions\<close>, with the object each call returns.\<close>

fun ensure_all :: "bridge_state \<Rightarrow> js_val list \<Rightarrow> bridge_state \<times> js_obj list" where
  "ensure_all st [] = (st, [])"
| "ensure_all st (options # rest) =
     (let (st1, pictureOptions) = ensurePictureOptions st options;
          (st2, returned) = ensure_all st1 rest
      in (st2, pictureOptions # returned))"

text \<open>An argument that carries a completion callback, as line 43 of the source tests it.\<close>

definition carries_callback :: "js_val \<Rightarrow> bool" where
  "carries_callback options =
     (truthy options \<and> typeof options = TObject \<and>
      truthy (get_prop (properties options) ''onPictureSaved''))"

text \<open>
  What happens to the module state over time: pictures are requested and the native side
  reports saved pictures, in any order. An event comes with the behaviour of the callbacks
  at the time it is handled, so a callback may throw at one event and return at the next.
\<close>

datatype bridge_op =
  TakePicture js_val | PictureSaved "nat \<Rightarrow> js_val \<Rightarrow> js_error option" nat js_val

fun bridge_step :: "bridge_state \<Rightarrow> bridge_op \<Rightarrow> bridge_state" where
  "bridge_step st (TakePicture options) = fst (ensurePictureOptions st options)"
| "bridge_step st (PictureSaved call ident data) = fst (onPictureSaved call st ident data)"

fun bridge_run :: "bridge_state \<Rightarrow> bridge_op list \<Rightarrow> bridge_state" where
  "bridge_run st [] = st"
| "bridge_run st (op # ops) = bridge_run (bridge_step st op) ops"

section \<open>Availability queries\<close>

text \<open>
  \<^verbatim>\<open>CameraManager\<close> is the native module. A method of it is absent on some platforms; a
  method that is there returns a promise, which resolves to a value or rejects with a
  message.
\<close>

record camera_manager =
  CameraManager_isAvailableAsync :: "(string + bool) option"
  CameraManager_getAvailableCameraTypesAsync :: "(string + string list) option"
  CameraManager_getAvailableVideoCodecsAsync :: "(string + string list) option"

definition await :: "string + 'a \<Rightarrow> js_error + 'a" where
  "await promise = (case promise of Inl message \<Rightarrow> Inl (Rejected message) | Inr v \<Rightarrow> Inr v)"

definition isAvailableAsync :: "camera_manager \<Rightarrow> js_error + bool" where
  "isAvailableAsync CameraManager =
     (case CameraManager_isAvailableAsync CameraManager of
        None \<Rightarrow> Inl (UnavailabilityError ''expo-camera'' ''isAvailableAsync'')
      | Some promise \<Rightarrow> await promise)"

definition getAvailableCameraTypesAsync :: "camera_manager \<Rightarrow> js_error + string list" where
  "getAvailableCameraTypesAsync CameraManager =
     (case CameraManager_getAvailableCameraTypesAsync CameraManager of
        None \<Rightarrow> Inl (UnavailabilityError ''expo-camera'' ''getAvailableCameraTypesAsync'')
      | Some promise \<Rightarrow> await promise)"

definition getAvailableVideoCodecsAsync :: "camera_manager \<Rightarrow> js_error + string list" where
  "getAvailableVideoCodecsAsync CameraManager =
     (case CameraManager_getAvailableVideoCodecsAsync CameraManager of
        None \<Rightarrow> Inl (UnavailabilityError ''Camera'' ''getAvailableVideoCodecsAsync'')
      | Some promise \<Rightarrow> await promise)"

section \<open>Throttling of detection events\<close>

text \<open>
  The per-instance caches \<^verbatim>\<open>_lastEvents\<close> and \<^verbatim>\<open>_lastEventsTimes\<close>, keyed by the event's
  \<^verbatim>\<open>type\<close>. A \<^verbatim>\<open>Date\<close> is its time in milliseconds, and a key is the name of an own
  property of the cache object (no event type is named \<^verbatim>\<open>__proto__\<close>).
\<close>

record camera =
  lastEvents :: "string \<Rightarrow> string option"
  lastEventsTimes :: "string \<Rightarrow> int option"

definition new_camera :: camera where
  "new_camera = \<lparr>lastEvents = Map.empty, lastEventsTimes = Map.empty\<rparr>"

definition EventThrottleMs :: int where
  "EventThrottleMs = 500"

text \<open>
  The handler that \<^verbatim>\<open>_onObjectDetected(callback)\<close> returns. The native event is opaque;
  the handler observes it through \<open>type_of\<close>, the property key its \<^verbatim>\<open>type\<close> denotes, and
  \<open>stringify\<close>, the text \<^verbatim>\<open>JSON.stringify\<close> gives. The clock is read twice, in the condition
  (\<open>now\<close>) and after the callback has returned (\<open>stored\<close>). The result is the new cache,
  the invocation made, if any, and the error the handler ends with, if any. The callback
  is called on line 304 and the cache is written on lines 305 and 306, so a callback that
  throws leaves the handler before the cache is written: the event has been delivered and
  the cache is as it was.
\<close>

definition onObjectDetected ::
  "('e \<Rightarrow> string) \<Rightarrow> ('e \<Rightarrow> string) \<Rightarrow> ('c \<Rightarrow> 'e \<Rightarrow> js_error option) \<Rightarrow> 'c option
     \<Rightarrow> camera \<Rightarrow> int \<Rightarrow> int \<Rightarrow> 'e \<Rightarrow> camera \<times> ('c \<times> 'e) option \<times> js_error option" where
  "onObjectDetected type_of stringify call callback this now stored nativeEvent =
     (let type = type_of nativeEvent;
          throttled =
            (case (lastEvents this type, lastEventsTimes this type) of
               (Some lastEvent, Some lastTime) \<Rightarrow>
                  lastEvent \<noteq> [] \<and> stringify nativeEvent = lastEvent \<and>
                  now - lastTime < EventThrottleMs
             | _ \<Rightarrow> False)
      in if throttled then (this, None, None)
         else (case callback of
                 None \<Rightarrow> (this, None, None)
               | Some cb \<Rightarrow>
                   (case call cb nativeEvent of
                      Some err \<Rightarrow> (this, Some (cb, nativeEvent), Some err)
                    | None \<Rightarrow>
                        (this\<lparr>lastEventsTimes := (lastEventsTimes this)(type \<mapsto> stored),
                              lastEvents := (lastEvents this)(type \<mapsto> stringify nativeEvent)\<rparr>,
                         Some (cb, nativeEvent), None))))"

text \<open>
  A history of events handled by one camera: each entry is the behaviour of the callbacks
  at that time, the callback the handler was built with, the two clock readings and the
  event. The run returns the cache and the log of the completed deliveries, those whose
  callback returned, each with the time stored for it.
\<close>

fun detect_all ::
  "('e \<Rightarrow> string) \<Rightarrow> ('e \<Rightarrow> string) \<Rightarrow> camera
     \<Rightarrow> (('c \<Rightarrow> 'e \<Rightarrow> js_error option) \<times> 'c option \<times> int \<times> int \<times> 'e) list
     \<Rightarrow> camera \<times> ('e \<times> int) list" where
  "detect_all type_of stringify this [] = (this, [])"
| "detect_all type_of stringify this ((call, callback, now, stored, nativeEvent) # rest) =
     (let (this1, invoked, thrown) =
            onObjectDetected type_of stringify call callback this now stored nativeEvent;
          (this2, deliveries) = detect_all type_of stringify this1 rest
      in (this2,
          (if invoked \<noteq> None \<and> thrown = None then [(nativeEvent, stored)] else []) @ deliveries))"

text \<open>The most recent completed delivery of an event of the given type, if there was one.\<close>

definition last_delivery :: "('e \<Rightarrow> string) \<Rightarrow> string \<Rightarrow> ('e \<times> int) list \<Rightarrow> ('e \<times> int) option" where
  "last_delivery type_of type deliveries =
     (case filter (\<lambda>(event, time). type_of event = type) deliveries of
        [] \<Rightarrow> None
      | d # ds \<Rightarrow> Some (last (d # ds)))"

section \<open>The command bridge of the specification\<close>

text \<open>
  The specification designs a bridge that queues graphics commands per context and runs
  them on a render thread. Its implementation is the native library of the graphics
  package, of which the camera module holds nothing but the build declaration, so this
  section follows the specification's data model (section 3) and component design
  (section 4).
  One context is modelled, with its Dispatcher as a step function; what the Dispatcher has
  done is recorded in the context.
\<close>

text \<open>Modelled from the spec: the error taxonomy of section 7; no source file declares it.\<close>

datatype bridge_error =
  UnknownContext | ContextLost | InvalidArgument | UnsupportedElementType
  | NativeGraphicsError int | ReentrantCall

text \<open>
  Modelled from the spec: the Command of section 3 (target context id, operation code,
  parameters by name, optional completion channel, submission sequence number), which the
  missing Host API Surface constructs.
\<close>

record command =
  target :: nat
  opcode :: string
  params :: "(string \<times> int) list"
  completion :: "nat option"
  seqno :: nat

text \<open>
  Modelled from the spec: the GraphicsContext of section 3 with its identifier, FIFO
  queue and disposed flag, kept by the missing Context Registry. \<open>executed\<close> lists the
  commands run against the native handle, \<open>cancelled\<close> those drained after disposal and
  \<open>resolved\<close> the completion channels resolved so far, each in the order it happened.
\<close>

record graphics_context =
  context_id :: nat
  queue :: "command list"
  next_seqno :: nat
  disposed :: bool
  handle_released :: bool
  executed :: "command list"
  cancelled :: "command list"
  resolved :: "(nat \<times> (bridge_error + int)) list"

text \<open>Modelled from the spec: \<^verbatim>\<open>create\<close> of the missing Context Registry (section 4.3).\<close>

definition create :: "nat \<Rightarrow> graphics_context" where
  "create n = \<lparr>context_id = n, queue = [], next_seqno = 0, disposed = False, handle_released = False,
               executed = [], cancelled = [], resolved = []\<rparr>"

text \<open>
  Modelled from the spec: the missing Host API Surface (section 4.2) constructs a Command
  for a deferred operation and assigns the next sequence number of the context.
\<close>

definition encode ::
  "graphics_context \<Rightarrow> string \<Rightarrow> (string \<times> int) list \<Rightarrow> nat option \<Rightarrow> command" where
  "encode ctx opName args channel =
     \<lparr>target = context_id ctx, opcode = opName, params = args, completion = channel,
      seqno = next_seqno ctx\<rparr>"

text \<open>
  Modelled from the spec: \<^verbatim>\<open>invoke\<close> of the missing Host API Surface for a deferred
  operation. Arguments are validated before the command is queued, a disposed context
  accepts no command, and an accepted command goes to the end of the queue.
\<close>

definition invoke ::
  "(string \<Rightarrow> (string \<times> int) list \<Rightarrow> bool) \<Rightarrow> graphics_context \<Rightarrow> string
     \<Rightarrow> (string \<times> int) list \<Rightarrow> nat option \<Rightarrow> bridge_error + graphics_context" where
  "invoke valid ctx opName args channel =
     (if \<not> valid opName args then Inl InvalidArgument
      else if disposed ctx then Inl ContextLost
      else Inr (ctx\<lparr>queue := queue ctx @ [encode ctx opName args channel],
                    next_seqno := next_seqno ctx + 1\<rparr>))"

text \<open>
  Modelled from the spec: resolving the completion channel of a command, if it has one
  (section 4.4); the missing Dispatcher does it.
\<close>

definition resolve :: "command \<Rightarrow> bridge_error + int \<Rightarrow> (nat \<times> (bridge_error + int)) list" where
  "resolve c outcome = (case completion c of None \<Rightarrow> [] | Some channel \<Rightarrow> [(channel, outcome)])"

text \<open>
  Modelled from the spec: one step of the missing Render Thread Dispatcher (section 4.4).
  It takes the command at the head of the queue. On a live context it executes the
  command, and a failure of the native call resolves the channel with
  \<^verbatim>\<open>NativeGraphicsError\<close>; on a disposed context it resolves the channel with
  \<^verbatim>\<open>ContextLost\<close> and executes nothing. The native call is a parameter.
\<close>

definition dispatch :: "(command \<Rightarrow> int + int) \<Rightarrow> graphics_context \<Rightarrow> graphics_context" where
  "dispatch native ctx =
     (case queue ctx of
        [] \<Rightarrow> ctx
      | c # rest \<Rightarrow>
          if disposed ctx
          then ctx\<lparr>queue := rest, cancelled := cancelled ctx @ [c],
                   resolved := resolved ctx @ resolve c (Inl ContextLost)\<rparr>
          else ctx\<lparr>queue := rest, executed := executed ctx @ [c],
                   resolved := resolved ctx @
                     resolve c (case native c of Inl code \<Rightarrow> Inl (NativeGraphicsError code)
                                               | Inr v \<Rightarrow> Inr v)\<rparr>)"

text \<open>
  Modelled from the spec: the drain of the missing Dispatcher at teardown (section 4.4),
  one step for each command that is queued.
\<close>

definition drain :: "(command \<Rightarrow> int + int) \<Rightarrow> graphics_context \<Rightarrow> graphics_context" where
  "drain native ctx = (dispatch native ^^ length (queue ctx)) ctx"

text \<open>
  Modelled from the spec: \<^verbatim>\<open>destroy\<close> of the missing Context Registry (section 4.3). It
  is a no-op on a disposed context; otherwise it sets the disposed flag, has the Dispatcher
  drain the queue and then releases the native handle.
\<close>

definition destroy :: "(command \<Rightarrow> int + int) \<Rightarrow> graphics_context \<Rightarrow> graphics_context" where
  "destroy native ctx =
     (if disposed ctx then ctx
      else (drain native (ctx\<lparr>disposed := True\<rparr>))\<lparr>handle_released := True\<rparr>)"

text \<open>
  Modelled from the spec: what can happen to one context, in any order: a deferred
  operation is invoked, the Dispatcher takes a step, the context is destroyed. A rejected
  invocation leaves the context as it was.
\<close>

datatype context_op = Invoke string "(string \<times> int) list" "nat option" | Dispatch | Destroy

fun context_step ::
  "(string \<Rightarrow> (string \<times> int) list \<Rightarrow> bool) \<Rightarrow> (command \<Rightarrow> int + int) \<Rightarrow> graphics_context
     \<Rightarrow> context_op \<Rightarrow> graphics_context" where
  "context_step valid native ctx (Invoke opName args channel) =
     (case invoke valid ctx opName args channel of Inl err \<Rightarrow> ctx | Inr ctx' \<Rightarrow> ctx')"
| "context_step valid native ctx Dispatch = dispatch native ctx"
| "context_step valid native ctx Destroy = destroy native ctx"

fun context_run ::
  "(string \<Rightarrow> (string \<times> int) list \<Rightarrow> bool) \<Rightarrow> (command \<Rightarrow> int + int) \<Rightarrow> graphics_context
     \<Rightarrow> context_op list \<Rightarrow> graphics_context" where
  "context_run valid native ctx [] = ctx"
| "context_run valid native ctx (op # ops) =
     context_run valid native (context_step valid native ctx op) ops"

text \<open>
  Modelled from the spec: the commands that the missing Host API Surface accepted during
  a run, in the order of their submission.
\<close>

fun accepted ::
  "(string \<Rightarrow> (string \<times> int) list \<Rightarrow> bool) \<Rightarrow> (command \<Rightarrow> int + int) \<Rightarrow> graphics_context
     \<Rightarrow> context_op list \<Rightarrow> command list" where
  "accepted valid native ctx [] = []"
| "accepted valid native ctx (Invoke opName args channel # ops) =
     (case invoke valid ctx opName args channel of
        Inl err \<Rightarrow> accepted valid native ctx ops
      | Inr ctx' \<Rightarrow> encode ctx opName args channel # accepted valid native ctx' ops)"
| "accepted valid native ctx (op # ops) =
     accepted valid native (context_step valid native ctx op) ops"

section \<open>Invariants\<close>

text \<open>Every registered identifier is below the counter, so the counter never hands it out again.\<close>

definition fresh_ids :: "bridge_state \<Rightarrow> bool" where
  "fresh_ids st = (\<forall>k. PICTURE_SAVED_CALLBACKS st k \<noteq> None \<longrightarrow> k < GLOBAL_PICTURE_ID st)"

text \<open>An identifier that was handed out and is no longer registered.\<close>

definition retired :: "nat \<Rightarrow> bridge_state \<Rightarrow> bool" where
  "retired ident st = (PICTURE_SAVED_CALLBACKS st ident = None \<and> ident < GLOBAL_PICTURE_ID st)"

text \<open>
  The cache holds, for every type, the text and the time of the last completed delivery of
  that type.
\<close>

definition cache_of ::
  "('e \<Rightarrow> string) \<Rightarrow> ('e \<Rightarrow> string) \<Rightarrow> camera \<Rightarrow> ('e \<times> int) list \<Rightarrow> bool" where
  "cache_of type_of stringify this deliveries =
     (\<forall>t. lastEvents this t
            = map_option (\<lambda>(event, time). stringify event) (last_delivery type_of t deliveries) \<and>
          lastEventsTimes this t = map_option snd (last_delivery type_of t deliveries))"

text \<open>All commands a context has accepted: those executed, then those cancelled, then those queued.\<close>

definition accepted_so_far :: "graphics_context \<Rightarrow> command list" where
  "accepted_so_far ctx = executed ctx @ cancelled ctx @ queue ctx"

definition well_sequenced :: "graphics_context \<Rightarrow> bool" where
  "well_sequenced ctx =
     (map seqno (accepted_so_far ctx) = [0 ..< next_seqno ctx] \<and>
      (\<not> disposed ctx \<longrightarrow> cancelled ctx = []))"

section \<open>Properties of the option preparation\<close>

text \<open>
  C8. For every options object whose \<^verbatim>\<open>quality\<close> is absent or falsy, an explicit 0
  included, the object that \<^verbatim>\<open>ensurePictureOptions\<close> returns has quality 1; a truthy
  quality is returned as it was given.
\<close>

theorem ensurePictureOptions_quality:
  "(\<not> truthy (get_prop obj ''quality'') \<longrightarrow>
      get_prop (snd (ensurePictureOptions st (JObject obj))) ''quality'' = JNumber 1) \<and>
   (truthy (get_prop obj ''quality'') \<longrightarrow>
      get_prop (snd (ensurePictureOptions st (JObject obj))) ''quality'' = get_prop obj ''quality'')"
  by (simp add: ensurePictureOptions_def get_prop_def Let_def)

theorem ensurePictureOptions_quality_witness:
  "\<not> truthy (get_prop [''quality'' \<mapsto> JNumber 0] ''quality'') \<and>
   get_prop (snd (ensurePictureOptions initial_bridge (JObject [''quality'' \<mapsto> JNumber 0])))
     ''quality'' = JNumber 1 \<and>
   truthy (get_prop [''quality'' \<mapsto> JNumber 0.5] ''quality'') \<and>
   get_prop (snd (ensurePictureOptions initial_bridge (JObject [''quality'' \<mapsto> JNumber 0.5])))
     ''quality'' = JNumber 0.5 \<and>
   get_prop (snd (ensurePictureOptions initial_bridge (JObject Map.empty))) ''quality'' = JNumber 1"
  using ensurePictureOptions_quality [where obj = "[''quality'' \<mapsto> JNumber 0]" and st = initial_bridge]
        ensurePictureOptions_quality [where obj = "[''quality'' \<mapsto> JNumber 0.5]" and st = initial_bridge]
        ensurePictureOptions_quality [where obj = Map.empty and st = initial_bridge]
  by (simp add: get_prop_def)

text \<open>
  C9. On an object, \<^verbatim>\<open>ensurePictureOptions\<close> leaves every property other than
  \<^verbatim>\<open>quality\<close>, \<^verbatim>\<open>id\<close> and \<^verbatim>\<open>fastMode\<close> as it was, and without an \<^verbatim>\<open>onPictureSaved\<close>
  callback it leaves \<^verbatim>\<open>id\<close> and \<^verbatim>\<open>fastMode\<close> as well, together with the registry and the
  counter. \<^verbatim>\<open>ensureRecordingOptions\<close> returns an object with all its properties unchanged.
\<close>

theorem ensure_options_frame:
  "(k \<notin> {''quality'', ''id'', ''fastMode''} \<longrightarrow>
      snd (ensurePictureOptions st (JObject obj)) k = obj k) \<and>
   (\<not> truthy (get_prop obj ''onPictureSaved'') \<longrightarrow>
      fst (ensurePictureOptions st (JObject obj)) = st \<and>
      (k \<noteq> ''quality'' \<longrightarrow> snd (ensurePictureOptions st (JObject obj)) k = obj k)) \<and>
   ensureRecordingOptions (JObject obj) = obj"
  by (simp add: ensurePictureOptions_def ensureRecordingOptions_def get_prop_def Let_def)

theorem ensure_options_frame_witness:
  "''base64'' \<notin> {''quality'', ''id'', ''fastMode''} \<and>
   snd (ensurePictureOptions initial_bridge
          (JObject [''base64'' \<mapsto> JBool True, ''onPictureSaved'' \<mapsto> JFunction 7])) ''base64''
     = Some (JBool True) \<and>
   \<not> truthy (get_prop [''id'' \<mapsto> JNumber 9] ''onPictureSaved'') \<and>
   snd (ensurePictureOptions initial_bridge (JObject [''id'' \<mapsto> JNumber 9])) ''id''
     = Some (JNumber 9) \<and>
   ensureRecordingOptions (JObject [''maxDuration'' \<mapsto> JNumber 5]) = [''maxDuration'' \<mapsto> JNumber 5]"
  using ensure_options_frame
          [where k = "''base64''" and st = initial_bridge
             and obj = "[''base64'' \<mapsto> JBool True, ''onPictureSaved'' \<mapsto> JFunction 7]"]
        ensure_options_frame
          [where k = "''id''" and st = initial_bridge and obj = "[''id'' \<mapsto> JNumber 9]"]
        ensure_options_frame
          [where k = "''id''" and st = initial_bridge and obj = "[''maxDuration'' \<mapsto> JNumber 5]"]
  by (simp add: get_prop_def)

text \<open>
  C4. The claim that an argument which is not an options object is answered with an
  \<^verbatim>\<open>InvalidArgument\<close> error does not hold of the code: line 38 and lines 53 to 57 of the
  source replace such an argument by an empty object. With \<^verbatim>\<open>null\<close> as its argument
  \<^verbatim>\<open>takePictureAsync\<close> calls the view with \<^verbatim>\<open>{ quality: 1 }\<close>, and with the number 5
  \<^verbatim>\<open>recordAsync\<close> calls it with \<^verbatim>\<open>{}\<close>; both return what the view returns.
\<close>

theorem ensure_options_null_counterexample:
  "takePictureAsync (Some (Inr \<circ> JObject)) initial_bridge JNull
     = (initial_bridge, Inr (JObject [''quality'' \<mapsto> JNumber 1])) \<and>
   recordAsync (Some (Inr \<circ> JObject)) (JNumber 5) = Inr (JObject Map.empty)"
  by (simp add: takePictureAsync_def recordAsync_def ensurePictureOptions_def
        ensureRecordingOptions_def get_prop_def Let_def)

text \<open>
  C4, as the code has it. For every argument that is falsy or whose \<^verbatim>\<open>typeof\<close> is not
  \<^verbatim>\<open>object\<close>, \<^verbatim>\<open>ensurePictureOptions\<close> returns the object \<^verbatim>\<open>{ quality: 1 }\<close> and leaves the
  registry and the counter alone, \<^verbatim>\<open>ensureRecordingOptions\<close> returns the empty object, and
  the two callers pass these objects on to the view: no error is raised for the argument.
\<close>

theorem ensure_options_substitute:
  assumes "\<not> truthy v \<or> typeof v \<noteq> TObject"
  shows "ensurePictureOptions st v = (st, [''quality'' \<mapsto> JNumber 1]) \<and>
         ensureRecordingOptions v = Map.empty \<and>
         takePictureAsync (Some view) st v = (st, view [''quality'' \<mapsto> JNumber 1]) \<and>
         recordAsync (Some view) v = view Map.empty"
  using assms
  by (cases v)
     (simp_all add: takePictureAsync_def recordAsync_def ensurePictureOptions_def
        ensureRecordingOptions_def get_prop_def Let_def)

theorem ensure_options_substitute_witness:
  "typeof (JString ''high'') \<noteq> TObject \<and>
   ensurePictureOptions initial_bridge (JString ''high'')
     = (initial_bridge, [''quality'' \<mapsto> JNumber 1]) \<and>
   ensureRecordingOptions (JString ''high'') = Map.empty \<and>
   takePictureAsync (Some (Inr \<circ> JObject)) initial_bridge (JString ''high'')
     = (initial_bridge, Inr (JObject [''quality'' \<mapsto> JNumber 1])) \<and>
   recordAsync (Some (Inr \<circ> JObject)) (JString ''high'') = Inr (JObject Map.empty)"
  using ensure_options_substitute
          [where v = "JString ''high''" and st = initial_bridge and view = "Inr \<circ> JObject"]
  by simp

section \<open>Properties of the callback registry\<close>

lemma fresh_ids_initial: "fresh_ids initial_bridge"
  by (simp add: fresh_ids_def initial_bridge_def)

lemma fresh_ids_step: "fresh_ids st \<Longrightarrow> fresh_ids (bridge_step st op)"
  by (cases op)
     (auto simp: fresh_ids_def ensurePictureOptions_def onPictureSaved_def Let_def less_Suc_eq
           split: if_splits option.splits js_val.splits)

lemma fresh_ids_run: "fresh_ids st \<Longrightarrow> fresh_ids (bridge_run st ops)"
  by (induction ops arbitrary: st) (simp_all add: fresh_ids_step)

lemma retired_step: "retired i st \<Longrightarrow> retired i (bridge_step st op)"
  by (cases op)
     (auto simp: retired_def ensurePictureOptions_def onPictureSaved_def Let_def
           split: if_splits option.splits js_val.splits)

lemma retired_run: "retired i st \<Longrightarrow> retired i (bridge_run st ops)"
  by (induction ops arbitrary: st) (simp_all add: retired_step)

lemma onPictureSaved_retired: "retired i st \<Longrightarrow> onPictureSaved call st i d = (st, None, None)"
  by (simp add: retired_def onPictureSaved_def get_prop_def)

lemma onPictureSaved_returns:
  "PICTURE_SAVED_CALLBACKS st i = Some (JFunction f) \<Longrightarrow> call f d = None \<Longrightarrow>
   onPictureSaved call st i d =
     (st\<lparr>PICTURE_SAVED_CALLBACKS := (PICTURE_SAVED_CALLBACKS st)(i := None)\<rparr>, Some (f, d), None)"
  by (simp add: onPictureSaved_def get_prop_def)

lemma onPictureSaved_throws:
  "PICTURE_SAVED_CALLBACKS st i = Some (JFunction f) \<Longrightarrow> call f d = Some err \<Longrightarrow>
   onPictureSaved call st i d = (st, Some (f, d), Some err)"
  by (simp add: onPictureSaved_def get_prop_def)

text \<open>
  C2. The claim that every registered callback is resolved at most once does not hold of
  the code. Line 70 of the source calls the callback and line 71 deletes it, so a callback
  that throws is invoked and stays registered. Callback 7 is registered under identifier
  1; the first event with identifier 1 invokes it and, as it throws, leaves it in the
  registry; the next event with identifier 1 invokes it a second time.
\<close>

theorem onPictureSaved_twice_counterexample:
  "bridge_run initial_bridge [TakePicture (JObject [''onPictureSaved'' \<mapsto> JFunction 7])]
     = \<lparr>PICTURE_SAVED_CALLBACKS = [1 \<mapsto> JFunction 7], GLOBAL_PICTURE_ID = 2\<rparr> \<and>
   onPictureSaved (throws JNull)
       \<lparr>PICTURE_SAVED_CALLBACKS = [1 \<mapsto> JFunction 7], GLOBAL_PICTURE_ID = 2\<rparr> 1 (JString ''uri'')
     = (\<lparr>PICTURE_SAVED_CALLBACKS = [1 \<mapsto> JFunction 7], GLOBAL_PICTURE_ID = 2\<rparr>,
        Some (7, JString ''uri''), Some (Thrown JNull)) \<and>
   onPictureSaved returns
       \<lparr>PICTURE_SAVED_CALLBACKS = [1 \<mapsto> JFunction 7], GLOBAL_PICTURE_ID = 2\<rparr> 1 (JString ''uri'')
     = (\<lparr>PICTURE_SAVED_CALLBACKS = Map.empty, GLOBAL_PICTURE_ID = 2\<rparr>,
        Some (7, JString ''uri''), None)"
  by (simp add: initial_bridge_def ensurePictureOptions_def onPictureSaved_def get_prop_def
        returns_def throws_def Let_def)

text \<open>
  C2, as the code has it. In every state the module can reach, an \<^verbatim>\<open>onPictureSaved\<close> event
  that carries the identifier of a registered callback invokes that callback with the
  event's data. When the callback returns, it is removed from the registry, and whatever
  pictures are requested and whatever events arrive afterwards, a later event with the
  same identifier invokes nothing and leaves the registry as it is: a callback that returns
  is resolved at most once. When the callback throws, its error leaves the handler and the
  registry is as it was.
\<close>

theorem onPictureSaved_once_when_returning:
  assumes "st = bridge_run initial_bridge history"
    and "PICTURE_SAVED_CALLBACKS st ident = Some (JFunction f)"
    and "removed = st\<lparr>PICTURE_SAVED_CALLBACKS := (PICTURE_SAVED_CALLBACKS st)(ident := None)\<rparr>"
    and "final = bridge_run removed later"
  shows "(call f data = None \<longrightarrow>
            onPictureSaved call st ident data = (removed, Some (f, data), None) \<and>
            onPictureSaved call' final ident data' = (final, None, None)) \<and>
         (\<forall>err. call f data = Some err \<longrightarrow>
            onPictureSaved call st ident data = (st, Some (f, data), Some err))"
proof -
  have "fresh_ids st"
    using assms(1) fresh_ids_run [OF fresh_ids_initial] by simp
  then have "ident < GLOBAL_PICTURE_ID st"
    using assms(2) by (auto simp: fresh_ids_def)
  then have "retired ident removed"
    using assms(3) by (simp add: retired_def)
  then have "retired ident final"
    using assms(4) retired_run by simp
  then show ?thesis
    using assms(2,3)
    by (simp add: onPictureSaved_retired onPictureSaved_returns onPictureSaved_throws)
qed

theorem onPictureSaved_once_when_returning_witness:
  "PICTURE_SAVED_CALLBACKS
     (bridge_run initial_bridge [TakePicture (JObject [''onPictureSaved'' \<mapsto> JFunction 7])]) 1
     = Some (JFunction 7) \<and>
   onPictureSaved returns
     (bridge_run initial_bridge [TakePicture (JObject [''onPictureSaved'' \<mapsto> JFunction 7])])
     1 (JString ''uri'')
     = (\<lparr>PICTURE_SAVED_CALLBACKS = Map.empty, GLOBAL_PICTURE_ID = 2\<rparr>,
        Some (7, JString ''uri''), None) \<and>
   onPictureSaved returns
     (bridge_run \<lparr>PICTURE_SAVED_CALLBACKS = Map.empty, GLOBAL_PICTURE_ID = 2\<rparr>
        [TakePicture (JObject [''onPictureSaved'' \<mapsto> JFunction 8]),
         PictureSaved (throws JNull) 2 (JString ''other'')])
     1 (JString ''uri'')
     = (bridge_run \<lparr>PICTURE_SAVED_CALLBACKS = Map.empty, GLOBAL_PICTURE_ID = 2\<rparr>
          [TakePicture (JObject [''onPictureSaved'' \<mapsto> JFunction 8]),
           PictureSaved (throws JNull) 2 (JString ''other'')], None, None)"
  using onPictureSaved_once_when_returning
          [where history = "[TakePicture (JObject [''onPictureSaved'' \<mapsto> JFunction 7])]"
             and st = "bridge_run initial_bridge
                         [TakePicture (JObject [''onPictureSaved'' \<mapsto> JFunction 7])]"
             and ident = 1 and f = 7 and call = returns and call' = returns
             and removed = "\<lparr>PICTURE_SAVED_CALLBACKS = Map.empty, GLOBAL_PICTURE_ID = 2\<rparr>"
             and later = "[TakePicture (JObject [''onPictureSaved'' \<mapsto> JFunction 8]),
                           PictureSaved (throws JNull) 2 (JString ''other'')]"
             and final = "bridge_run \<lparr>PICTURE_SAVED_CALLBACKS = Map.empty, GLOBAL_PICTURE_ID = 2\<rparr>
                          [TakePicture (JObject [''onPictureSaved'' \<mapsto> JFunction 8]),
                           PictureSaved (throws JNull) 2 (JString ''other'')]"
             and data = "JString ''uri''" and data' = "JString ''uri''"]
  by (simp add: initial_bridge_def ensurePictureOptions_def get_prop_def returns_def Let_def)

section \<open>Properties of the identifiers\<close>

lemma ensure_counter_mono: "GLOBAL_PICTURE_ID st \<le> GLOBAL_PICTURE_ID (fst (ensurePictureOptions st v))"
  by (simp add: ensurePictureOptions_def Let_def)

lemma ensure_all_length: "length (snd (ensure_all st calls)) = length calls"
  by (induction calls arbitrary: st) (simp_all add: split_beta Let_def)

lemma ensure_all_mono: "GLOBAL_PICTURE_ID st \<le> GLOBAL_PICTURE_ID (fst (ensure_all st calls))"
proof (induction calls arbitrary: st)
  case Nil show ?case by simp
next
  case (Cons v calls)
  have "GLOBAL_PICTURE_ID st \<le> GLOBAL_PICTURE_ID (fst (ensurePictureOptions st v))"
    by (rule ensure_counter_mono)
  also have "\<dots> \<le> GLOBAL_PICTURE_ID (fst (ensure_all (fst (ensurePictureOptions st v)) calls))"
    by (rule Cons.IH)
  finally show ?case by (simp add: split_beta Let_def)
qed

lemma ensure_callback:
  assumes "carries_callback v"
  shows "get_prop (snd (ensurePictureOptions st v)) ''id'' = JNumber (real (GLOBAL_PICTURE_ID st))"
    and "GLOBAL_PICTURE_ID (fst (ensurePictureOptions st v)) = Suc (GLOBAL_PICTURE_ID st)"
    and "PICTURE_SAVED_CALLBACKS (fst (ensurePictureOptions st v)) (GLOBAL_PICTURE_ID st)
          = Some (get_prop (properties v) ''onPictureSaved'')"
  using assms
  by (auto simp: carries_callback_def ensurePictureOptions_def Let_def get_prop_def)

lemma ensure_keeps_below:
  "k < GLOBAL_PICTURE_ID st \<Longrightarrow>
   PICTURE_SAVED_CALLBACKS (fst (ensurePictureOptions st v)) k = PICTURE_SAVED_CALLBACKS st k"
  by (simp add: ensurePictureOptions_def Let_def)

lemma ensure_all_keeps_below:
  "k < GLOBAL_PICTURE_ID st \<Longrightarrow>
   PICTURE_SAVED_CALLBACKS (fst (ensure_all st calls)) k = PICTURE_SAVED_CALLBACKS st k"
proof (induction calls arbitrary: st)
  case Nil show ?case by simp
next
  case (Cons v calls)
  have "k < GLOBAL_PICTURE_ID (fst (ensurePictureOptions st v))"
    using Cons.prems ensure_counter_mono[of st v] by simp
  from Cons.IH[OF this] show ?case using Cons.prems
    by (simp add: split_beta Let_def ensure_keeps_below)
qed

lemma ensure_all_id:
  "j < length calls \<Longrightarrow> carries_callback (calls ! j) \<Longrightarrow>
   \<exists>b. GLOBAL_PICTURE_ID st \<le> b \<and> b < GLOBAL_PICTURE_ID (fst (ensure_all st calls)) \<and>
       get_prop (snd (ensure_all st calls) ! j) ''id'' = JNumber (real b) \<and>
       PICTURE_SAVED_CALLBACKS (fst (ensure_all st calls)) b
         = Some (get_prop (properties (calls ! j)) ''onPictureSaved'')"
proof (induction calls arbitrary: st j)
  case Nil then show ?case by simp
next
  case (Cons v calls)
  let ?st1 = "fst (ensurePictureOptions st v)"
  show ?case
  proof (cases j)
    case 0
    with Cons.prems have cb: "carries_callback v" by simp
    have "GLOBAL_PICTURE_ID st < GLOBAL_PICTURE_ID ?st1" using ensure_callback(2)[OF cb] by simp
    moreover have "GLOBAL_PICTURE_ID ?st1 \<le> GLOBAL_PICTURE_ID (fst (ensure_all ?st1 calls))"
      by (rule ensure_all_mono)
    moreover have "PICTURE_SAVED_CALLBACKS (fst (ensure_all ?st1 calls)) (GLOBAL_PICTURE_ID st)
        = Some (get_prop (properties v) ''onPictureSaved'')"
      using ensure_all_keeps_below[OF calculation(1)] ensure_callback(3)[OF cb] by simp
    ultimately show ?thesis using 0 ensure_callback(1)[OF cb, of st]
      by (intro exI[of _ "GLOBAL_PICTURE_ID st"]) (simp add: split_beta Let_def)
  next
    case (Suc j')
    with Cons.prems have "j' < length calls" "carries_callback (calls ! j')" by simp_all
    from Cons.IH[OF this, of ?st1] obtain b where
      b: "GLOBAL_PICTURE_ID ?st1 \<le> b" "b < GLOBAL_PICTURE_ID (fst (ensure_all ?st1 calls))"
         "get_prop (snd (ensure_all ?st1 calls) ! j') ''id'' = JNumber (real b)"
         "PICTURE_SAVED_CALLBACKS (fst (ensure_all ?st1 calls)) b
            = Some (get_prop (properties (calls ! j')) ''onPictureSaved'')"
      by blast
    have "GLOBAL_PICTURE_ID st \<le> b" using b(1) ensure_counter_mono[of st v] by simp
    then show ?thesis using b Suc
      by (intro exI[of _ b]) (simp add: split_beta Let_def)
  qed
qed

text \<open>
  C3. In every sequence of calls of \<^verbatim>\<open>ensurePictureOptions\<close>, from any state of the module,
  a call whose options carry an \<^verbatim>\<open>onPictureSaved\<close> callback is given an identifier that is
  strictly greater than the identifier given to every earlier such call. After the whole
  sequence each of the two callbacks is still registered under its own identifier, so no
  two registered callbacks share one.
\<close>

theorem picture_ids_increase:
  assumes "i < j" "j < length calls" "carries_callback (calls ! i)" "carries_callback (calls ! j)"
  shows "\<exists>a b. get_prop (snd (ensure_all st calls) ! i) ''id'' = JNumber (real a) \<and>
               get_prop (snd (ensure_all st calls) ! j) ''id'' = JNumber (real b) \<and> a < b \<and>
               PICTURE_SAVED_CALLBACKS (fst (ensure_all st calls)) a
                 = Some (get_prop (properties (calls ! i)) ''onPictureSaved'') \<and>
               PICTURE_SAVED_CALLBACKS (fst (ensure_all st calls)) b
                 = Some (get_prop (properties (calls ! j)) ''onPictureSaved'')"
  using assms
proof (induction calls arbitrary: st i j)
  case Nil then show ?case by simp
next
  case (Cons v calls)
  let ?st1 = "fst (ensurePictureOptions st v)"
  obtain j' where j: "j = Suc j'" using Cons.prems(1) by (cases j) auto
  show ?case
  proof (cases i)
    case 0
    with Cons.prems have cb: "carries_callback v" by simp
    from Cons.prems j have "j' < length calls" "carries_callback (calls ! j')" by simp_all
    from ensure_all_id[OF this, of ?st1] obtain b where
      b: "GLOBAL_PICTURE_ID ?st1 \<le> b" 
         "get_prop (snd (ensure_all ?st1 calls) ! j') ''id'' = JNumber (real b)"
         "PICTURE_SAVED_CALLBACKS (fst (ensure_all ?st1 calls)) b
            = Some (get_prop (properties (calls ! j')) ''onPictureSaved'')"
      by blast
    have lt: "GLOBAL_PICTURE_ID st < GLOBAL_PICTURE_ID ?st1" using ensure_callback(2)[OF cb] by simp
    have "PICTURE_SAVED_CALLBACKS (fst (ensure_all ?st1 calls)) (GLOBAL_PICTURE_ID st)
        = Some (get_prop (properties v) ''onPictureSaved'')"
      using ensure_all_keeps_below[OF lt] ensure_callback(3)[OF cb] by simp
    then show ?thesis using 0 j b lt ensure_callback(1)[OF cb, of st]
      by (intro exI[of _ "GLOBAL_PICTURE_ID st"] exI[of _ b]) (simp add: split_beta Let_def)
  next
    case (Suc i')
    with Cons.prems j have "i' < j'" "j' < length calls" "carries_callback (calls ! i')"
      "carries_callback (calls ! j')" by simp_all
    from Cons.IH[OF this, of ?st1] show ?thesis using Suc j
      by (simp add: split_beta Let_def)
  qed
qed

theorem picture_ids_increase_witness:
  "carries_callback (JObject [''onPictureSaved'' \<mapsto> JFunction 7]) \<and>
   carries_callback (JObject [''onPictureSaved'' \<mapsto> JFunction 8]) \<and>
   (\<exists>a b. get_prop (snd (ensure_all initial_bridge
                [JObject [''onPictureSaved'' \<mapsto> JFunction 7], JNull,
                 JObject [''onPictureSaved'' \<mapsto> JFunction 8]]) ! 0) ''id'' = JNumber (real a) \<and>
          get_prop (snd (ensure_all initial_bridge
                [JObject [''onPictureSaved'' \<mapsto> JFunction 7], JNull,
                 JObject [''onPictureSaved'' \<mapsto> JFunction 8]]) ! 2) ''id'' = JNumber (real b) \<and>
          a < b \<and>
          PICTURE_SAVED_CALLBACKS (fst (ensure_all initial_bridge
                [JObject [''onPictureSaved'' \<mapsto> JFunction 7], JNull,
                 JObject [''onPictureSaved'' \<mapsto> JFunction 8]])) a = Some (JFunction 7) \<and>
          PICTURE_SAVED_CALLBACKS (fst (ensure_all initial_bridge
                [JObject [''onPictureSaved'' \<mapsto> JFunction 7], JNull,
                 JObject [''onPictureSaved'' \<mapsto> JFunction 8]])) b = Some (JFunction 8))"
  using picture_ids_increase
          [where i = 0 and j = 2 and st = initial_bridge
             and calls = "[JObject [''onPictureSaved'' \<mapsto> JFunction 7], JNull,
                           JObject [''onPictureSaved'' \<mapsto> JFunction 8]]"]
  by (simp add: carries_callback_def get_prop_def)

section \<open>Properties of the availability queries\<close>

text \<open>
  C10. Each of \<^verbatim>\<open>Camera.isAvailableAsync\<close>, \<^verbatim>\<open>Camera.getAvailableCameraTypesAsync\<close> and
  \<^verbatim>\<open>Camera.getAvailableVideoCodecsAsync\<close> raises an \<^verbatim>\<open>UnavailabilityError\<close> exactly when
  \<^verbatim>\<open>CameraManager\<close> lacks the method of that name. When the method is there the query
  returns the value the method produces, and rejects as the method rejects, so a query
  always ends with a value or an error.
\<close>

theorem availability_queries:
  "((\<exists>m n. isAvailableAsync CameraManager = Inl (UnavailabilityError m n))
      = (CameraManager_isAvailableAsync CameraManager = None)) \<and>
   ((\<exists>m n. getAvailableCameraTypesAsync CameraManager = Inl (UnavailabilityError m n))
      = (CameraManager_getAvailableCameraTypesAsync CameraManager = None)) \<and>
   ((\<exists>m n. getAvailableVideoCodecsAsync CameraManager = Inl (UnavailabilityError m n))
      = (CameraManager_getAvailableVideoCodecsAsync CameraManager = None)) \<and>
   (\<forall>p. CameraManager_isAvailableAsync CameraManager = Some p \<longrightarrow>
        isAvailableAsync CameraManager = await p) \<and>
   (\<forall>p. CameraManager_getAvailableCameraTypesAsync CameraManager = Some p \<longrightarrow>
        getAvailableCameraTypesAsync CameraManager = await p) \<and>
   (\<forall>p. CameraManager_getAvailableVideoCodecsAsync CameraManager = Some p \<longrightarrow>
        getAvailableVideoCodecsAsync CameraManager = await p) \<and>
   (\<forall>v. await (Inr v) = Inr v) \<and> (\<forall>message. await (Inl message) = Inl (Rejected message))"
  by (auto simp: isAvailableAsync_def getAvailableCameraTypesAsync_def
        getAvailableVideoCodecsAsync_def await_def split: option.splits sum.splits)

theorem availability_queries_witness:
  "isAvailableAsync
     \<lparr>CameraManager_isAvailableAsync = Some (Inr True),
      CameraManager_getAvailableCameraTypesAsync = Some (Inr [''front'', ''back'']),
      CameraManager_getAvailableVideoCodecsAsync = None\<rparr> = Inr True \<and>
   getAvailableCameraTypesAsync
     \<lparr>CameraManager_isAvailableAsync = Some (Inr True),
      CameraManager_getAvailableCameraTypesAsync = Some (Inr [''front'', ''back'']),
      CameraManager_getAvailableVideoCodecsAsync = None\<rparr> = Inr [''front'', ''back''] \<and>
   getAvailableVideoCodecsAsync
     \<lparr>CameraManager_isAvailableAsync = Some (Inr True),
      CameraManager_getAvailableCameraTypesAsync = Some (Inr [''front'', ''back'']),
      CameraManager_getAvailableVideoCodecsAsync = None\<rparr>
     = Inl (UnavailabilityError ''Camera'' ''getAvailableVideoCodecsAsync'')"
  using availability_queries
          [where CameraManager =
             "\<lparr>CameraManager_isAvailableAsync = Some (Inr True),
               CameraManager_getAvailableCameraTypesAsync = Some (Inr [''front'', ''back'']),
               CameraManager_getAvailableVideoCodecsAsync = None\<rparr>"]
  by (simp add: getAvailableVideoCodecsAsync_def await_def)

section \<open>Properties of the event throttle\<close>

lemma last_delivery_Nil: "last_delivery type_of t [] = None"
  by (simp add: last_delivery_def)

lemma last_delivery_alt:
  "last_delivery type_of t dl =
     (if filter (\<lambda>(event, time). type_of event = t) dl = [] then None
      else Some (last (filter (\<lambda>(event, time). type_of event = t) dl)))"
  by (simp add: last_delivery_def split: list.splits)

lemma last_delivery_snoc:
  "last_delivery type_of t (dl @ [(e, tm)])
     = (if type_of e = t then Some (e, tm) else last_delivery type_of t dl)"
  by (simp add: last_delivery_alt)

lemma cache_of_step:
  assumes "cache_of type_of stringify c dl"
    and "onObjectDetected type_of stringify call cb c now st e = (c', r, thrown)"
  shows "cache_of type_of stringify c'
           (dl @ (if r \<noteq> None \<and> thrown = None then [(e, st)] else []))"
  using assms
  by (auto simp: cache_of_def onObjectDetected_def Let_def last_delivery_snoc
           split: if_splits option.splits prod.splits)

lemma cache_of_run:
  "cache_of type_of stringify c dl \<Longrightarrow> detect_all type_of stringify c hist = (c', ds) \<Longrightarrow>
   cache_of type_of stringify c' (dl @ ds)"
proof (induction hist arbitrary: c dl c' ds)
  case Nil
  then show ?case by simp
next
  case (Cons h hist)
  obtain call cb now st e where h: "h = (call, cb, now, st, e)"
    by (cases h) auto
  obtain c1 r thrown where
    s1: "onObjectDetected type_of stringify call cb c now st e = (c1, r, thrown)"
    by (cases "onObjectDetected type_of stringify call cb c now st e") auto
  obtain c2 ds2 where s2: "detect_all type_of stringify c1 hist = (c2, ds2)"
    by fastforce
  from Cons.prems(2) h s1 s2
  have eq: "c' = c2" "ds = (if r \<noteq> None \<and> thrown = None then [(e, st)] else []) @ ds2"
    by auto
  have "cache_of type_of stringify c2
          ((dl @ (if r \<noteq> None \<and> thrown = None then [(e, st)] else [])) @ ds2)"
    by (rule Cons.IH [OF cache_of_step [OF Cons.prems(1) s1] s2])
  then show ?case
    using eq by simp
qed

lemma cache_of_new: "cache_of type_of stringify new_camera []"
  by (simp add: cache_of_def new_camera_def last_delivery_Nil)

text \<open>
  C1. The claim that the callback is skipped exactly when an identical event of the same
  type was delivered less than 500 milliseconds before does not hold of the code. Line 304
  of the source calls the callback and lines 305 and 306 write the cache, so a delivery
  whose callback throws leaves no trace in the cache. A camera with an empty cache
  delivers an event of type \<open>qr\<close> to a callback that throws; the cache stays empty, and the
  identical event 100 milliseconds later is delivered again.
\<close>

theorem onObjectDetected_throwing_counterexample:
  "onObjectDetected fst snd (throws JNull) (Some (0::nat)) new_camera 1000 1001 (''qr'', ''abc'')
     = (new_camera, Some (0, (''qr'', ''abc'')), Some (Thrown JNull)) \<and>
   onObjectDetected fst snd returns (Some (0::nat)) new_camera 1100 1101 (''qr'', ''abc'')
     = (\<lparr>lastEvents = [''qr'' \<mapsto> ''abc''], lastEventsTimes = [''qr'' \<mapsto> 1101]\<rparr>,
        Some (0, (''qr'', ''abc'')), None)"
  by (simp add: onObjectDetected_def new_camera_def returns_def throws_def Let_def)

text \<open>
  C1, as the code has it. Let a camera have handled any history of detection events, and
  let an event \<open>e\<close> of type \<open>t\<close> arrive at a handler that has a callback. The callback is not
  invoked exactly when a delivery of an event of type \<open>t\<close> has been completed before, that
  is, its callback returned, the text of \<open>e\<close> equals the text of the event of the last
  completed delivery of type \<open>t\<close>, and less than 500 milliseconds lie between the time
  stored at that delivery and now; the cache is then left as it is. In every other case
  the callback is invoked with \<open>e\<close>. When it returns, the cache entry of \<open>t\<close> becomes the
  text of \<open>e\<close> and the time read after the callback; when it throws, its error leaves the
  handler and the cache is left as it is. \<^verbatim>\<open>JSON.stringify\<close> never returns the empty text
  for an event.
\<close>

theorem onObjectDetected_throttle_completed:
  assumes nonempty: "\<forall>event. stringify event \<noteq> []"
    and run: "detect_all type_of stringify new_camera history = (this, deliveries)"
    and handled: "onObjectDetected type_of stringify call (Some cb) this now stored e
                    = (this', invoked, thrown)"
  shows "(invoked = None) =
           (\<exists>e0 t0. last_delivery type_of (type_of e) deliveries = Some (e0, t0) \<and>
                    stringify e = stringify e0 \<and> now - t0 < 500) \<and>
         (if invoked = None then this' = this \<and> thrown = None
          else invoked = Some (cb, e) \<and> thrown = call cb e \<and>
               (if thrown = None
                then this' = this\<lparr>lastEventsTimes := (lastEventsTimes this)(type_of e \<mapsto> stored),
                                  lastEvents := (lastEvents this)(type_of e \<mapsto> stringify e)\<rparr>
                else this' = this))"
proof -
  from cache_of_run [OF cache_of_new run] have inv: "cache_of type_of stringify this deliveries"
    by simp
  show ?thesis
    using inv handled nonempty
    by (cases "last_delivery type_of (type_of e) deliveries"; cases "call cb e")
       (auto simp: cache_of_def onObjectDetected_def Let_def EventThrottleMs_def
             split: if_splits option.splits prod.splits)
qed

theorem onObjectDetected_throttle_completed_witness:
  "(\<forall>event :: string \<times> string. fst event @ '':'' @ snd event \<noteq> []) \<and>
   detect_all fst (\<lambda>event. fst event @ '':'' @ snd event) new_camera
       [(throws JNull, Some (0::nat), 900, 901, (''qr'', ''abc'')),
        (returns, Some 0, 1000, 1001, (''qr'', ''abc''))]
     = (\<lparr>lastEvents = [''qr'' \<mapsto> ''qr:abc''], lastEventsTimes = [''qr'' \<mapsto> 1001]\<rparr>,
        [((''qr'', ''abc''), 1001)]) \<and>
   onObjectDetected fst (\<lambda>event. fst event @ '':'' @ snd event) returns (Some (0::nat))
       \<lparr>lastEvents = [''qr'' \<mapsto> ''qr:abc''], lastEventsTimes = [''qr'' \<mapsto> 1001]\<rparr>
       1500 1502 (''qr'', ''abc'')
     = (\<lparr>lastEvents = [''qr'' \<mapsto> ''qr:abc''], lastEventsTimes = [''qr'' \<mapsto> 1001]\<rparr>,
        None, None) \<and>
   (\<exists>e0 t0. last_delivery fst ''qr'' [((''qr'', ''abc''), 1001)] = Some (e0, t0) \<and>
            ''qr:abc'' = fst e0 @ '':'' @ snd e0 \<and> 1500 - t0 < 500) \<and>
   onObjectDetected fst (\<lambda>event. fst event @ '':'' @ snd event) returns (Some (0::nat))
       \<lparr>lastEvents = [''qr'' \<mapsto> ''qr:abc''], lastEventsTimes = [''qr'' \<mapsto> 1001]\<rparr>
       1501 1503 (''qr'', ''abc'')
     = (\<lparr>lastEvents = [''qr'' \<mapsto> ''qr:abc''], lastEventsTimes = [''qr'' \<mapsto> 1503]\<rparr>,
        Some (0, (''qr'', ''abc'')), None) \<and>
   \<not> (\<exists>e0 t0. last_delivery fst ''qr'' [((''qr'', ''abc''), 1001)] = Some (e0, t0) \<and>
            ''qr:abc'' = fst e0 @ '':'' @ snd e0 \<and> 1501 - t0 < 500)"
proof -
  have run: "detect_all fst (\<lambda>event. fst event @ '':'' @ snd event) new_camera
       [(throws JNull, Some (0::nat), 900, 901, (''qr'', ''abc'')),
        (returns, Some 0, 1000, 1001, (''qr'', ''abc''))]
     = (\<lparr>lastEvents = [''qr'' \<mapsto> ''qr:abc''], lastEventsTimes = [''qr'' \<mapsto> 1001]\<rparr>,
        [((''qr'', ''abc''), 1001)])"
    by (simp add: onObjectDetected_def new_camera_def returns_def throws_def Let_def)
  have throttled: "onObjectDetected fst (\<lambda>event. fst event @ '':'' @ snd event) returns
       (Some (0::nat))
       \<lparr>lastEvents = [''qr'' \<mapsto> ''qr:abc''], lastEventsTimes = [''qr'' \<mapsto> 1001]\<rparr>
       1500 1502 (''qr'', ''abc'')
     = (\<lparr>lastEvents = [''qr'' \<mapsto> ''qr:abc''], lastEventsTimes = [''qr'' \<mapsto> 1001]\<rparr>,
        None, None)"
    by (simp add: onObjectDetected_def EventThrottleMs_def Let_def)
  have delivered: "onObjectDetected fst (\<lambda>event. fst event @ '':'' @ snd event) returns
       (Some (0::nat))
       \<lparr>lastEvents = [''qr'' \<mapsto> ''qr:abc''], lastEventsTimes = [''qr'' \<mapsto> 1001]\<rparr>
       1501 1503 (''qr'', ''abc'')
     = (\<lparr>lastEvents = [''qr'' \<mapsto> ''qr:abc''], lastEventsTimes = [''qr'' \<mapsto> 1503]\<rparr>,
        Some (0, (''qr'', ''abc'')), None)"
    by (simp add: onObjectDetected_def EventThrottleMs_def returns_def Let_def)
  have nonempty: "\<forall>event :: string \<times> string. fst event @ '':'' @ snd event \<noteq> []"
    by simp
  from onObjectDetected_throttle_completed [OF nonempty run throttled]
       onObjectDetected_throttle_completed [OF nonempty run delivered]
       run throttled delivered nonempty
  show ?thesis by simp
qed



section \<open>Properties of the command bridge\<close>

lemma drain_disposed:
  "disposed ctx \<Longrightarrow>
   drain native ctx =
     ctx\<lparr>queue := [], cancelled := cancelled ctx @ queue ctx,
         resolved := resolved ctx @ concat (map (\<lambda>c. resolve c (Inl ContextLost)) (queue ctx))\<rparr>"
  unfolding drain_def
proof (induction "queue ctx" arbitrary: ctx)
  case Nil
  then show ?case by simp
next
  case (Cons c rest)
  let ?ctx1 = "ctx\<lparr>queue := rest, cancelled := cancelled ctx @ [c],
                   resolved := resolved ctx @ resolve c (Inl ContextLost)\<rparr>"
  have q: "queue ctx = c # rest" using Cons.hyps(2) by simp
  have step: "dispatch native ctx = ?ctx1" using q Cons.prems by (simp add: dispatch_def)
  have "(dispatch native ^^ length (queue ctx)) ctx = (dispatch native ^^ length rest) ?ctx1"
    using q step by (simp add: funpow_swap1)
  also have "\<dots> = ?ctx1\<lparr>queue := [], cancelled := cancelled ?ctx1 @ queue ?ctx1,
         resolved := resolved ?ctx1 @ concat (map (\<lambda>c. resolve c (Inl ContextLost)) (queue ?ctx1))\<rparr>"
    using Cons.hyps(1)[of ?ctx1] Cons.prems by simp
  finally show ?case using q by simp
qed

lemma destroy_live:
  "\<not> disposed ctx \<Longrightarrow>
   destroy native ctx =
     ctx\<lparr>disposed := True, queue := [], cancelled := cancelled ctx @ queue ctx,
         resolved := resolved ctx @ concat (map (\<lambda>c. resolve c (Inl ContextLost)) (queue ctx)),
         handle_released := True\<rparr>"
  by (simp add: destroy_def drain_disposed)

lemma well_sequenced_create: "well_sequenced (create n)"
  by (simp add: well_sequenced_def create_def accepted_so_far_def)

lemma step_accepted:
  assumes "well_sequenced ctx"
  shows "well_sequenced (context_step valid native ctx op) \<and>
         accepted_so_far (context_run valid native ctx [op]) = accepted_so_far ctx @ accepted valid native ctx [op]"
proof (cases op)
  case (Invoke opName args channel)
  then show ?thesis using assms
    by (auto simp: well_sequenced_def accepted_so_far_def invoke_def encode_def)
next
  case Dispatch
  then show ?thesis using assms
    by (auto simp: well_sequenced_def accepted_so_far_def dispatch_def split: list.splits)
next
  case Destroy
  then show ?thesis using assms
    by (cases "disposed ctx") (auto simp: well_sequenced_def accepted_so_far_def destroy_live, simp_all add: destroy_def)
qed

lemma accepted_Cons:
  "accepted valid native ctx (op # ops) =
     accepted valid native ctx [op] @ accepted valid native (context_step valid native ctx op) ops"
  by (cases op) (simp_all split: sum.splits)

lemma run_accepted:
  "well_sequenced ctx \<Longrightarrow>
   well_sequenced (context_run valid native ctx ops) \<and>
   accepted_so_far (context_run valid native ctx ops) = accepted_so_far ctx @ accepted valid native ctx ops"
proof (induction ops arbitrary: ctx)
  case Nil
  then show ?case by simp
next
  case (Cons op ops)
  from step_accepted[OF Cons.prems, of valid native op]
  have ws: "well_sequenced (context_step valid native ctx op)"
    and h: "accepted_so_far (context_step valid native ctx op) = accepted_so_far ctx @ accepted valid native ctx [op]"
    by simp_all
  from Cons.IH[OF ws] show ?case using h accepted_Cons[of valid native ctx op ops] by simp
qed

lemma frozen_step: "disposed ctx \<Longrightarrow>
   disposed (context_step valid native ctx op) \<and> executed (context_step valid native ctx op) = executed ctx"
  by (cases op) (auto simp: invoke_def dispatch_def destroy_def split: list.splits)

lemma frozen_run: "disposed ctx \<Longrightarrow> executed (context_run valid native ctx ops) = executed ctx"
proof (induction ops arbitrary: ctx)
  case Nil
  then show ?case by simp
next
  case (Cons op ops)
  from frozen_step[OF Cons.prems, of valid native op] Cons.IH[of "context_step valid native ctx op"]
  show ?case by simp
qed

text \<open>
  C6. For every sequence of invocations, Dispatcher steps and destructions applied to a
  new context, the commands executed, followed by those cancelled and those still queued,
  are exactly the commands accepted, in the order of their submission: the Dispatcher
  executes an initial part of the submissions, in order, with none left out, merged or
  moved ahead. The sequence numbers of the accepted commands are 0, 1, 2 and so on, so they
  increase strictly along the submissions and along the executions.
\<close>

theorem execution_in_submission_order:
  "executed (context_run valid native (create n) ops) @
   cancelled (context_run valid native (create n) ops) @
   queue (context_run valid native (create n) ops) = accepted valid native (create n) ops \<and>
   map seqno (accepted valid native (create n) ops)
     = [0 ..< length (accepted valid native (create n) ops)] \<and>
   sorted_wrt (<) (map seqno (executed (context_run valid native (create n) ops)))"
proof -
  let ?ctx = "context_run valid native (create n) ops"
  let ?acc = "accepted valid native (create n) ops"
  from run_accepted [OF well_sequenced_create, of valid native n ops]
  have ws: "well_sequenced ?ctx" and h: "accepted_so_far ?ctx = ?acc"
    by (simp_all add: accepted_so_far_def create_def)
  from ws h have m: "map seqno ?acc = [0 ..< next_seqno ?ctx]"
    by (simp add: well_sequenced_def)
  then have "length (map seqno ?acc) = length [0 ..< next_seqno ?ctx]"
    by simp
  then have "length ?acc = next_seqno ?ctx"
    by simp
  with m have m': "map seqno ?acc = [0 ..< length ?acc]"
    by simp
  have "sorted_wrt (<) (map seqno ?acc)"
    unfolding m' by simp
  then have "sorted_wrt (<) (map seqno (executed ?ctx))"
    unfolding h [symmetric] accepted_so_far_def by (simp add: sorted_wrt_append)
  with h m' show ?thesis
    by (simp add: accepted_so_far_def)
qed

theorem execution_in_submission_order_witness:
  "map opcode (executed (context_run (\<lambda>opName args. True) (\<lambda>c. Inr 0) (create 1)
      [Invoke ''setViewport'' [] None, Invoke ''clear'' [] None, Dispatch,
       Invoke ''drawArrays'' [] (Some 5), Dispatch])) = [''setViewport'', ''clear''] \<and>
   map opcode (accepted (\<lambda>opName args. True) (\<lambda>c. Inr 0) (create 1)
      [Invoke ''setViewport'' [] None, Invoke ''clear'' [] None, Dispatch,
       Invoke ''drawArrays'' [] (Some 5), Dispatch]) = [''setViewport'', ''clear'', ''drawArrays''] \<and>
   map seqno (accepted (\<lambda>opName args. True) (\<lambda>c. Inr 0) (create 1)
      [Invoke ''setViewport'' [] None, Invoke ''clear'' [] None, Dispatch,
       Invoke ''drawArrays'' [] (Some 5), Dispatch]) = [0, 1, 2] \<and>
   sorted_wrt (<) (map seqno (executed (context_run (\<lambda>opName args. True) (\<lambda>c. Inr 0) (create 1)
      [Invoke ''setViewport'' [] None, Invoke ''clear'' [] None, Dispatch,
       Invoke ''drawArrays'' [] (Some 5), Dispatch])))"
  using execution_in_submission_order
          [where valid = "\<lambda>opName args. True" and native = "\<lambda>c. Inr 0" and n = 1
             and ops = "[Invoke ''setViewport'' [] None, Invoke ''clear'' [] None, Dispatch,
                         Invoke ''drawArrays'' [] (Some 5), Dispatch]"]
  by (simp add: create_def invoke_def encode_def dispatch_def resolve_def)

text \<open>
  C7. Destroying a live context that has N commands queued executes none of them: it
  moves all N to the cancelled commands, in order, resolves the completion channel of each
  with \<^verbatim>\<open>ContextLost\<close>, leaves the queue empty and sets the disposed flag. Whatever is
  invoked, dispatched or destroyed afterwards, the list of executed commands stays what
  it was when the context was destroyed.
\<close>

theorem destroy_cancels_queue:
  assumes "\<not> disposed ctx"
  shows "resolved (destroy native ctx)
           = resolved ctx @ concat (map (\<lambda>c. resolve c (Inl ContextLost)) (queue ctx)) \<and>
         cancelled (destroy native ctx) = cancelled ctx @ queue ctx \<and>
         queue (destroy native ctx) = [] \<and>
         disposed (destroy native ctx) \<and>
         executed (destroy native ctx) = executed ctx \<and>
         executed (context_run valid native (destroy native ctx) ops) = executed ctx"
proof -
  have d: "disposed (destroy native ctx)"
    using assms by (simp add: destroy_live)
  from frozen_run [OF d, of valid native ops] show ?thesis
    using assms by (simp add: destroy_live)
qed

theorem destroy_cancels_queue_witness:
  "resolved (destroy (\<lambda>c. Inr 0)
     (context_run (\<lambda>opName args. True) (\<lambda>c. Inr 0) (create 1)
        [Invoke ''setViewport'' [] (Some 4), Invoke ''clear'' [] (Some 5),
         Invoke ''drawArrays'' [] (Some 6), Dispatch]))
     = [(4, Inr 0), (5, Inl ContextLost), (6, Inl ContextLost)] \<and>
   map opcode (executed (context_run (\<lambda>opName args. True) (\<lambda>c. Inr 0)
     (destroy (\<lambda>c. Inr 0)
        (context_run (\<lambda>opName args. True) (\<lambda>c. Inr 0) (create 1)
           [Invoke ''setViewport'' [] (Some 4), Invoke ''clear'' [] (Some 5),
            Invoke ''drawArrays'' [] (Some 6), Dispatch]))
     [Dispatch, Invoke ''clear'' [] None, Dispatch])) = [''setViewport'']"
proof -
  have run: "context_run (\<lambda>opName args. True) (\<lambda>c. Inr 0) (create 1)
        [Invoke ''setViewport'' [] (Some 4), Invoke ''clear'' [] (Some 5),
         Invoke ''drawArrays'' [] (Some 6), Dispatch]
     = \<lparr>context_id = 1,
        queue = [\<lparr>target = 1, opcode = ''clear'', params = [], completion = Some 5, seqno = 1\<rparr>,
                 \<lparr>target = 1, opcode = ''drawArrays'', params = [], completion = Some 6, seqno = 2\<rparr>],
        next_seqno = 3, disposed = False, handle_released = False,
        executed = [\<lparr>target = 1, opcode = ''setViewport'', params = [], completion = Some 4, seqno = 0\<rparr>],
        cancelled = [], resolved = [(4, Inr 0)]\<rparr>"
    by (simp add: create_def invoke_def encode_def dispatch_def resolve_def)
  show ?thesis
    unfolding run
    using destroy_cancels_queue
          [where native = "\<lambda>c. Inr 0" and valid = "\<lambda>opName args. True"
             and ops = "[Dispatch, Invoke ''clear'' [] None, Dispatch]"
             and ctx = "\<lparr>context_id = 1,
        queue = [\<lparr>target = 1, opcode = ''clear'', params = [], completion = Some 5, seqno = 1\<rparr>,
                 \<lparr>target = 1, opcode = ''drawArrays'', params = [], completion = Some 6, seqno = 2\<rparr>],
        next_seqno = 3, disposed = False, handle_released = False,
        executed = [\<lparr>target = 1, opcode = ''setViewport'', params = [], completion = Some 4, seqno = 0\<rparr>],
        cancelled = [], resolved = [(4, Inr 0)]\<rparr>"]
    by (simp add: resolve_def)
qed

end
